theory Spec2Isabelle
  imports Complex_Main
begin

section \<open>Numbers\<close>

text \<open>
  The scores, losses and step sizes of the program are floating-point numbers. They are
  modelled by the reals they stand for, so rounding and overflow are left out; what is
  kept is the result of a division whose divisor is zero, which the program does not
  guard against: the quotient is then an infinity or not-a-number, and every comparison
  with not-a-number is false. A zero divisor is taken to be \<open>+0.0\<close>.
\<close>

datatype xreal = Finite real | PosInf | NegInf | NaN

fun xdiv :: "xreal \<Rightarrow> real \<Rightarrow> xreal" where
  "xdiv (Finite x) y =
     (if y \<noteq> 0 then Finite (x / y)
      else if 0 < x then PosInf else if x < 0 then NegInf else NaN)"
| "xdiv PosInf y = (if 0 \<le> y then PosInf else NegInf)"
| "xdiv NegInf y = (if 0 \<le> y then NegInf else PosInf)"
| "xdiv NaN y = NaN"

fun xadd :: "real \<Rightarrow> xreal \<Rightarrow> xreal" where
  "xadd a (Finite x) = Finite (a + x)"
| "xadd a PosInf = PosInf"
| "xadd a NegInf = NegInf"
| "xadd a NaN = NaN"

fun xgt :: "xreal \<Rightarrow> real \<Rightarrow> bool" where
  "xgt (Finite x) b = (x > b)"
| "xgt PosInf b = True"
| "xgt NegInf b = False"
| "xgt NaN b = False"




section \<open>Errors\<close>

text \<open>
  Every way a call of the program can stop without returning: a failed \<open>assert\<close>
  (tagged with the assertion that failed), an index read past the end of an array, an
  integer division by zero, and \<open>exit()\<close>.
\<close>

datatype failed_assert =
    ContentNullMismatch nat int int
      \<comment> \<open>\<open>verify_state\<close>: layer, content, \<open>sum(~null)\<close>\<close>
  | LayerDormant         \<comment> \<open>\<open>embed_feature\<close>: \<open>assert not lift(Layer.dormant)\<close>\<close>
  | NoNullSlot           \<comment> \<open>\<open>embed_feature\<close>: \<open>assert null.any()\<close>\<close>
  | ContentIsNone        \<comment> \<open>\<open>WidthModification.apply\<close>: slot must be enabled\<close>
  | ContentIsNotNone     \<comment> \<open>\<open>DepthModification.apply\<close>, \<open>consider_inserting_layer\<close>\<close>
  | WidthMadeLossWorse   \<comment> \<open>"adding width made loss worse"\<close>
  | LayerMadeLossWorse   \<comment> \<open>"adding layer made loss worse"\<close>

datatype error = AssertionError failed_assert | IndexError | ZeroDivisionError | SystemExit

section \<open>Architecture template\<close>

text \<open>
  \<open>ModelTemplate\<close> is a dataclass of the slots' capacities, their contents (the current
  width, or \<open>None\<close> for a dormant slot) and a flag choosing the nonlinearity.
\<close>

record ModelTemplate =
  capacities :: "int list"
  contents :: "int option list"
  rational :: bool

text \<open>\<open>np.nonzero\<close> on a one-dimensional boolean array: the indices of its true entries,
  in increasing order.\<close>

definition nonzero :: "bool list \<Rightarrow> nat list" where
  "nonzero bs = filter (\<lambda>i. bs ! i) [0..<length bs]"

text \<open>The elementwise test \<open>conarr != None\<close>.\<close>

definition not_None :: "int option list \<Rightarrow> bool list" where
  "not_None cs = map (\<lambda>c. c \<noteq> None) cs"

text \<open>
  \<open>in_out_indices\<close>: \<open>conarr[:split_at][:-1]\<close> is \<open>butlast (take split_at contents)\<close>,
  \<open>conarr[split_at:]\<close> is \<open>drop split_at contents\<close>, and reading
  \<open>subsequent_enabled[0]\<close> of an empty index array raises IndexError. The layer index is
  a slot position, counted from 0.
\<close>

definition in_out_indices :: "ModelTemplate \<Rightarrow> nat \<Rightarrow> error + nat \<times> nat" where
  "in_out_indices t layer_index =
     (let conarr = contents t;
          split_at = layer_index + 1;
          preceding_enabled = nonzero (not_None (butlast (take split_at conarr)));
          in_index = (if length preceding_enabled = 0 then 0
                      else last preceding_enabled + 1);
          subsequent_enabled = nonzero (not_None (drop split_at conarr))
      in case subsequent_enabled of
           [] \<Rightarrow> Inl IndexError
         | j # _ \<Rightarrow> Inr (in_index, split_at + j))"

section \<open>Proposer\<close>

text \<open>
  The network (\<open>nets.Layers\<close>, \<open>nets.Layer\<close>) is a collaborator whose code is not part
  of the growth engine. The operations the proposer calls on it are parameters of the
  model: \<open>nulls\<close> gives the null mask of every layer of a parameter state,
  \<open>dormant\<close> and \<open>null\<close> read one layer, and \<open>insert_feature\<close> returns the
  parameters of one layer after a feature has been spliced in at a slot index.
  A parameter state maps the layer index \<open>i\<close> to the entry \<open>params["layers_i"]\<close>.
\<close>

record ('p, 'f) Layers =
  nulls :: "(nat \<Rightarrow> 'p) \<Rightarrow> bool list list"
  dormant :: "(nat \<Rightarrow> 'p) \<Rightarrow> nat \<Rightarrow> bool"
  null :: "(nat \<Rightarrow> 'p) \<Rightarrow> nat \<Rightarrow> bool list"
  insert_feature :: "(nat \<Rightarrow> 'p) \<Rightarrow> nat \<Rightarrow> 'f \<Rightarrow> nat \<Rightarrow> 'p"

text \<open>\<open>jnp.sum(~n)\<close>: the number of false entries of a mask.\<close>

definition sum_not_null :: "bool list \<Rightarrow> int" where
  "sum_not_null n = int (length (filter (\<lambda>b. \<not> b) n))"

text \<open>
  The loop of \<open>verify_state\<close> over \<open>enumerate(zip(contents, nulls))\<close>, from position
  \<open>i\<close> on: a disabled slot is skipped, an enabled one is asserted, and the first
  failed assertion ends the call.
\<close>

fun verify_layers :: "nat \<Rightarrow> (int option \<times> bool list) list \<Rightarrow> error + unit" where
  "verify_layers i [] = Inr ()"
| "verify_layers i ((c, n) # rest) =
     (case c of
        None \<Rightarrow> verify_layers (Suc i) rest
      | Some w \<Rightarrow>
          if w = sum_not_null n then verify_layers (Suc i) rest
          else Inl (AssertionError (ContentNullMismatch i w (sum_not_null n))))"

definition verify_state ::
  "('p, 'f) Layers \<Rightarrow> ModelTemplate \<Rightarrow> (nat \<Rightarrow> 'p) \<Rightarrow> error + unit" where
  "verify_state model t state = verify_layers 0 (zip (contents t) (nulls model state))"

text \<open>
  \<open>argmax\<close> of a boolean array: the position of its first maximal entry, that is of the
  first true entry when there is one, and 0 otherwise.
\<close>

definition argmax :: "bool list \<Rightarrow> nat" where
  "argmax bs = (if True \<in> set bs then length (takeWhile (\<lambda>b. \<not> b) bs) else 0)"

definition embed_feature ::
  "('p, 'f) Layers \<Rightarrow> (nat \<Rightarrow> 'p) \<Rightarrow> 'f \<Rightarrow> nat \<Rightarrow> error + (nat \<Rightarrow> 'p)" where
  "embed_feature model state feature layer_index =
     (if dormant model state layer_index then Inl (AssertionError LayerDormant)
      else let nl = null model state layer_index in
        if \<not> (\<exists>b \<in> set nl. b) then Inl (AssertionError NoNullSlot)
        else let idx = argmax nl in
          Inr (state(layer_index := insert_feature model state layer_index feature idx)))"


section \<open>Sampler\<close>

text \<open>
  A sampler holds the dataset and its labels (arrays indexed by example) and an optional
  batch size. Its key stream feeds \<open>jax.random.permutation\<close>; the permutation drawn for
  one pass is a parameter of \<open>batches\<close>.
\<close>

record ('a, 'b) Sampler =
  dataset :: "'a list"
  labels :: "'b list"
  batch_size :: "int option"

text \<open>Python's slices \<open>xs[i:]\<close> and \<open>xs[:n]\<close>; a negative bound counts from the end.\<close>

definition slice_from :: "'a list \<Rightarrow> int \<Rightarrow> 'a list" where
  "slice_from xs i =
     (if 0 \<le> i then drop (nat i) xs else drop (length xs - nat (- i)) xs)"

definition slice_to :: "'a list \<Rightarrow> int \<Rightarrow> 'a list" where
  "slice_to xs n =
     (if 0 \<le> n then take (nat n) xs else take (length xs - nat (- n)) xs)"

text \<open>Indexing an array with an array of positions: \<open>xs[bindices, ...]\<close>.\<close>

definition gather :: "'a list \<Rightarrow> nat list \<Rightarrow> 'a list" where
  "gather xs bindices = map (\<lambda>i. xs ! i) bindices"

definition num_batches :: "('a, 'b) Sampler \<Rightarrow> error + int" where
  "num_batches s =
     (case batch_size s of
        None \<Rightarrow> Inr 1
      | Some b \<Rightarrow>
          if b = 0 then Inl ZeroDivisionError
          else Inr (int (length (dataset s)) div b))"

text \<open>The index array \<open>bindices\<close> of batch number \<open>batch_num\<close>.\<close>

definition bindices :: "nat list \<Rightarrow> int \<Rightarrow> nat \<Rightarrow> nat list" where
  "bindices pindices b batch_num =
     slice_to (slice_from pindices (int batch_num * b)) b"

text \<open>
  The generator \<open>batches\<close>, run to its end: the list of the batches it yields.
  \<open>range(num_batches)\<close> is empty when \<open>num_batches\<close> is not positive.
\<close>

definition batches ::
  "nat list \<Rightarrow> ('a, 'b) Sampler \<Rightarrow> error + ('a list \<times> 'b list) list" where
  "batches pindices s =
     (case batch_size s of
        None \<Rightarrow> Inr [(dataset s, labels s)]
      | Some b \<Rightarrow>
          if b = 0 then Inl ZeroDivisionError
          else
            let DLEN = length (dataset s);
                num_batches = int DLEN div b
            in Inr (map (\<lambda>batch_num.
                          (gather (dataset s) (bindices pindices b batch_num),
                           gather (labels s) (bindices pindices b batch_num)))
                        [0..<nat num_batches]))"


section \<open>Feature optimizers\<close>

text \<open>
  \<open>jax.lax.scan\<close>: the step function is run over the inputs in order, threading the
  carry; the result is the last carry and the list of the outputs.
\<close>

fun scan :: "('c \<Rightarrow> 'x \<Rightarrow> 'c \<times> 'y) \<Rightarrow> 'c \<Rightarrow> 'x list \<Rightarrow> 'c \<times> 'y list" where
  "scan f init [] = (init, [])"
| "scan f init (x # xs) =
     (let (carry, y) = f init x;
          (final, ys) = scan f carry xs
      in (final, y # ys))"

text \<open>\<open>jax.lax.fori_loop(0, steps, body_fun, init)\<close>, counting the steps still to run.\<close>

fun fori_loop :: "nat \<Rightarrow> nat \<Rightarrow> (nat \<Rightarrow> 'c \<Rightarrow> 'c) \<Rightarrow> 'c \<Rightarrow> 'c" where
  "fori_loop i 0 body_fun val = val"
| "fori_loop i (Suc n) body_fun val = fori_loop (Suc i) n body_fun (body_fun i val)"

subsection \<open>Metropolis-adjusted Langevin optimizer\<close>

text \<open>The loop state of \<open>kfac_direct_mala\<close>.\<close>

record 'f mala_State =
  lr :: real
  mala_rscore :: real
  mala_feature :: "'f"

text \<open>
  The step function \<open>fun\<close> of \<open>kfac_direct_mala\<close>, run once per burst. The burst itself
  (\<open>kfac_mala_burst\<close>, applied to the observation of the layer) is the parameter
  \<open>burst\<close>: from the feature, the key and the step size it gives the new r-score, the
  new feature and the acceptance rate.
\<close>

definition mala_fun ::
  "('f \<Rightarrow> 'k \<Rightarrow> real \<Rightarrow> real \<times> 'f \<times> real) \<Rightarrow> 'f mala_State \<Rightarrow> 'k
     \<Rightarrow> 'f mala_State \<times> real" where
  "mala_fun burst state key =
     (let (new_rscore, new_feature, accept_rate) =
            burst (mala_feature state) key (lr state);
          TARGET = 0.6;
          changed_lr = (if accept_rate > TARGET then lr state * 1.3 else lr state / 1.3);
          new_lr = (if \<bar>accept_rate - TARGET\<bar> > 0.3 then changed_lr else lr state)
      in (\<lparr>lr = new_lr, mala_rscore = new_rscore, mala_feature = new_feature\<rparr>,
          accept_rate))"

text \<open>
  \<open>kfac_direct_mala\<close>, on the keys split off for its bursts: the final r-score and
  feature (the layer score and the loss norm it also returns come from the observation).
\<close>

definition kfac_direct_mala ::
  "('f \<Rightarrow> 'k \<Rightarrow> real \<Rightarrow> real \<times> 'f \<times> real) \<Rightarrow> 'f \<Rightarrow> real \<Rightarrow> 'k list \<Rightarrow> real \<times> 'f" where
  "kfac_direct_mala burst feature lr0 keys =
     (let init_state = \<lparr>lr = lr0, mala_rscore = 0, mala_feature = feature\<rparr>;
          (final_state, accepts) = scan (mala_fun burst) init_state keys
      in (mala_rscore final_state, mala_feature final_state))"

subsection \<open>Deterministic optimizer\<close>

text \<open>The loop state of \<open>kfac_direct_sgd\<close>.\<close>

record 'f sgd_State =
  eps :: real
  rscore :: real
  sgd_feature :: "'f"

text \<open>
  The loop body \<open>body_fun\<close> of \<open>kfac_direct_sgd\<close>. One ascent step
  (\<open>kfac_single_sgd\<close>, applied to the observation of the layer) is the parameter
  \<open>single_sgd\<close>: from the feature and a step size it gives the r-score and the new
  feature. \<open>eps0\<close> is the argument \<open>eps\<close> of \<open>kfac_direct_sgd\<close>, which the body reads
  in \<open>jnp.where(rscore_increased, eps, eps / 3.0)\<close>.
\<close>

definition body_fun ::
  "('f \<Rightarrow> real \<Rightarrow> real \<times> 'f) \<Rightarrow> real \<Rightarrow> nat \<Rightarrow> 'f sgd_State \<Rightarrow> 'f sgd_State" where
  "body_fun single_sgd eps0 i state =
     (let (new_rscore, new_feature) = single_sgd (sgd_feature state) (eps state);
          rscore_increased = xgt (xdiv (Finite new_rscore) (rscore state)) 1.0
      in \<lparr>eps = (if rscore_increased then eps0 else eps0 / 3.0),
          rscore = new_rscore, sgd_feature = new_feature\<rparr>)"

definition sgd_loop ::
  "('f \<Rightarrow> real \<Rightarrow> real \<times> 'f) \<Rightarrow> real \<Rightarrow> nat \<Rightarrow> 'f \<Rightarrow> 'f sgd_State" where
  "sgd_loop single_sgd eps0 steps feature0 =
     fori_loop 0 steps (body_fun single_sgd eps0)
       \<lparr>eps = eps0, rscore = 0.0, sgd_feature = feature0\<rparr>"

text \<open>\<open>kfac_direct_sgd\<close> returns the r-score and the feature of the final state.\<close>

definition kfac_direct_sgd ::
  "('f \<Rightarrow> real \<Rightarrow> real \<times> 'f) \<Rightarrow> real \<Rightarrow> nat \<Rightarrow> 'f \<Rightarrow> real \<times> 'f" where
  "kfac_direct_sgd single_sgd eps0 steps feature0 =
     (let final_state = sgd_loop single_sgd eps0 steps feature0
      in (rscore final_state, sgd_feature final_state))"


section \<open>Growth decisions\<close>


datatype 's Modification =
    WidthModification xreal nat "'s"
  | DepthModification xreal nat "'s"


text \<open>
  The configured thresholds (\<open>cfg["evo"]\<close>), and the numbers the scoring stages of a
  growth cycle hand to its gate: the softmax-weighted raw score, the layer baseline on
  the training batch and on the validation batch, the squared norm of the loss gradient
  and the solver's baseline.
\<close>

record evo_cfg =
  thresh :: real
  abs_thresh :: real
  layer_abs_thresh :: real
  layer_cost_mul :: real
  size_costing :: bool

record scores =
  best_raw :: real
  layer_score :: real
  vlayer_score :: real
  loss_sqnorm :: real
  baseline :: real

text \<open>The counters \<open>save_index\<close> and \<open>just_added\<close> that \<open>consider_adding_width\<close>
  shares with the training loop.\<close>

record landscape =
  save_index :: int
  just_added :: bool

text \<open>The gate of \<open>consider_adding_width\<close>.\<close>

definition going_to_add :: "evo_cfg \<Rightarrow> scores \<Rightarrow> bool" where
  "going_to_add cfg sc \<longleftrightarrow>
     xgt (xdiv (Finite (best_raw sc)) (layer_score sc)) (thresh cfg)
   \<and> xgt (xdiv (Finite (best_raw sc)) (loss_sqnorm sc)) (abs_thresh cfg)"

text \<open>
  \<open>consider_adding_width\<close> from its gate on: the landscape of layer 0 is saved when a
  feature is going to be added, was just added, or the epoch is a final one, and the
  program exits at the 25th save; then the selected feature is embedded (\<open>embed_op\<close> is
  \<open>proposer.embed_feature\<close>, which may fail) and the modification returned, or
  \<open>None\<close> is.
\<close>

definition consider_adding_width ::
  "('s \<Rightarrow> 'f \<Rightarrow> nat \<Rightarrow> error + 's) \<Rightarrow> evo_cfg \<Rightarrow> scores \<Rightarrow> 'f \<Rightarrow> 's \<Rightarrow> nat \<Rightarrow> bool
     \<Rightarrow> landscape \<Rightarrow> (error + 's Modification option) \<times> landscape" where
  "consider_adding_width embed_op cfg sc best_feature st li is_final ls =
     (let best_ratio = xadd 1.0 (xdiv (Finite (best_raw sc)) (baseline sc));
          saving = ((going_to_add cfg sc \<or> just_added ls \<or> is_final) \<and> li = 0);
          ls' = (if saving then \<lparr>save_index = save_index ls + 1, just_added = False\<rparr>
                 else ls)
      in if saving \<and> save_index ls' \<ge> 25 then (Inl SystemExit, ls')
         else if going_to_add cfg sc then
           (case embed_op st best_feature li of
              Inl e \<Rightarrow> (Inl e, ls')
            | Inr new_state \<Rightarrow> (Inr (Some (WidthModification best_ratio li new_state)), ls'))
         else (Inr None, ls'))"

text \<open>The cost-adjusted metric and the gate of \<open>consider_inserting_layer\<close>.\<close>

definition adjusted_metric :: "evo_cfg \<Rightarrow> scores \<Rightarrow> int \<Rightarrow> xreal" where
  "adjusted_metric cfg sc new_layer_size =
     (let cost_mul = (if size_costing cfg then layer_cost_mul cfg * real_of_int new_layer_size
                      else layer_cost_mul cfg)
      in xdiv (Finite (best_raw sc)) cost_mul)"

definition going_to_insert :: "evo_cfg \<Rightarrow> scores \<Rightarrow> int \<Rightarrow> bool" where
  "going_to_insert cfg sc new_layer_size \<longleftrightarrow>
     xgt (xdiv (adjusted_metric cfg sc new_layer_size) (vlayer_score sc)) (thresh cfg)
   \<and> xgt (xdiv (adjusted_metric cfg sc new_layer_size) (loss_sqnorm sc))
         (layer_abs_thresh cfg)"

text \<open>
  \<open>consider_inserting_layer\<close>: the slot must be dormant; past the gate the candidate
  layer is embedded (\<open>embed_op\<close> is \<open>proposer.embed_layer\<close>, which may fail).
\<close>

definition consider_inserting_layer ::
  "('s \<Rightarrow> 'f \<Rightarrow> nat \<Rightarrow> error + 's) \<Rightarrow> ModelTemplate \<Rightarrow> evo_cfg \<Rightarrow> scores \<Rightarrow> int \<Rightarrow> 'f
     \<Rightarrow> 's \<Rightarrow> nat \<Rightarrow> error + 's Modification option" where
  "consider_inserting_layer embed_op t cfg sc new_layer_size best_feature st li =
     (if length (contents t) \<le> li then Inl IndexError
      else if contents t ! li \<noteq> None then Inl (AssertionError ContentIsNotNone)
      else if going_to_insert cfg sc new_layer_size then
        (case embed_op st best_feature li of
           Inl e \<Rightarrow> Inl e
         | Inr new_state \<Rightarrow>
             Inr (Some (DepthModification
                          (xadd 1.0 (xdiv (adjusted_metric cfg sc new_layer_size) (baseline sc)))
                          li new_state)))
      else Inr None)"

section \<open>Checkpoints\<close>

record 's TrainState =
  epoch :: int
  train_contents :: "int option list"
  solver_state :: "'s"

text \<open>
  The restore step of \<open>main\<close>. \<open>restore_checkpoint\<close> is the checkpoint collaborator,
  applied to the initial train state as its target. The result is the train state, the
  solver's parameter state and the template's contents that training starts from;
  \<open>exit()\<close> after printing "output size changed" is \<open>SystemExit\<close>, and \<open>contents[-1]\<close>
  of an empty contents raises IndexError.
\<close>

definition restore ::
  "bool \<Rightarrow> bool \<Rightarrow> ('s TrainState \<Rightarrow> 's TrainState) \<Rightarrow> 's TrainState \<Rightarrow> 's \<Rightarrow> int option list
     \<Rightarrow> error + 's TrainState \<times> 's \<times> int option list" where
  "restore enable do_restore restore_checkpoint initial_train_state st cs =
     (if enable \<and> do_restore then
        let restored = restore_checkpoint initial_train_state in
        if train_contents restored = [] then Inl IndexError
        else if last (train_contents restored) \<noteq> last (train_contents restored)
        then Inl SystemExit
        else Inr (restored, solver_state restored, train_contents restored)
      else Inr (initial_train_state, st, cs))"

section \<open>Locating features\<close>

text \<open>
  \<open>make_feature\<close> builds a one-neuron feature; \<open>locate_feature\<close> reads the position
  and the scale back from its linear part (\<open>kern\<close> is the argument \<open>kernel\<close> of
  \<open>locate_linear\<close>). Divisions are the reals' (the divisors are not zero where the
  properties below use them).
\<close>

record feature_params =
  w_const :: real
  w_lin :: real
  w_vec :: real
  linear_bias :: real
  linear_kernel :: real

definition make_feature :: "real \<Rightarrow> real \<Rightarrow> real \<Rightarrow> real \<Rightarrow> real \<Rightarrow> feature_params" where
  "make_feature p s c l v =
     (let kernel = 1 / (0.000001 + s);
          bias = - p * kernel
      in \<lparr>w_const = c, w_lin = l, w_vec = v, linear_bias = bias, linear_kernel = kernel\<rparr>)"

definition locate_linear :: "real \<Rightarrow> real \<Rightarrow> real \<times> real" where
  "locate_linear kern bias =
     (let position = - bias / kern;
          scale = 1 / (0.000001 + kern)
      in (position, scale))"

definition locate_feature :: "feature_params \<Rightarrow> real \<times> real" where
  "locate_feature f = locate_linear (linear_kernel f) (linear_bias f)"


section \<open>Properties of the architecture template\<close>

lemma set_nonzero: "set (nonzero bs) = {i. i < length bs \<and> bs ! i}"
  by (auto simp: nonzero_def)

lemma sorted_nonzero: "sorted (nonzero bs)"
  by (simp add: nonzero_def sorted_wrt_filter)

lemma nonzero_Nil: "nonzero bs = [] \<longleftrightarrow> (\<forall>i<length bs. \<not> bs ! i)"
  by (auto simp: nonzero_def filter_empty_conv)

lemma nonzero_Cons:
  assumes "nonzero bs = j # js"
  shows "j < length bs" and "bs ! j" and "\<forall>i<j. \<not> bs ! i"
proof -
  have mem: "j \<in> set (nonzero bs)" using assms by simp
  then show "j < length bs" and "bs ! j" by (simp_all add: set_nonzero)
  have srt: "sorted (j # js)" using sorted_nonzero [of bs] assms by simp
  show "\<forall>i<j. \<not> bs ! i"
  proof (intro allI impI notI)
    fix i assume "i < j" and "bs ! i"
    with \<open>j < length bs\<close> have "i \<in> set (nonzero bs)" by (simp add: set_nonzero)
    then have "i \<in> set (j # js)" using assms by simp
    with srt have "j \<le> i" by auto
    with \<open>i < j\<close> show False by simp
  qed
qed

lemma sorted_le_last:
  assumes "sorted xs" and "x \<in> set xs"
  shows "x \<le> last xs"
proof -
  from assms(2) obtain k where k: "k < length xs" "xs ! k = x"
    by (auto simp: in_set_conv_nth)
  then have ne: "xs \<noteq> []" by auto
  have "xs ! k \<le> xs ! (length xs - 1)"
    using assms(1) k(1) by (intro sorted_nth_mono) auto
  then show ?thesis using k ne by (simp add: last_conv_nth)
qed

lemma nonzero_last:
  assumes "nonzero bs \<noteq> []"
  shows "last (nonzero bs) < length bs" and "bs ! last (nonzero bs)"
    and "\<forall>i. last (nonzero bs) < i \<and> i < length bs \<longrightarrow> \<not> bs ! i"
proof -
  have "last (nonzero bs) \<in> set (nonzero bs)" using assms by simp
  then show "last (nonzero bs) < length bs" and "bs ! last (nonzero bs)"
    by (simp_all add: set_nonzero)
  show "\<forall>i. last (nonzero bs) < i \<and> i < length bs \<longrightarrow> \<not> bs ! i"
  proof (intro allI impI notI)
    fix i assume "last (nonzero bs) < i \<and> i < length bs" and "bs ! i"
    then have "i \<in> set (nonzero bs)" by (simp add: set_nonzero)
    then have "i \<le> last (nonzero bs)" by (rule sorted_le_last [OF sorted_nonzero])
    with \<open>last (nonzero bs) < i \<and> i < length bs\<close> show False by simp
  qed
qed

lemma not_None_nth: "i < length cs \<Longrightarrow> not_None cs ! i \<longleftrightarrow> cs ! i \<noteq> None"
  by (simp add: not_None_def)

lemma length_not_None: "length (not_None cs) = length cs"
  by (simp add: not_None_def)


lemma in_out_indices_unfold:
  "in_out_indices t li =
     (case nonzero (not_None (drop (Suc li) (contents t))) of
        [] \<Rightarrow> Inl IndexError
      | j # _ \<Rightarrow>
          Inr (if nonzero (not_None (butlast (take (Suc li) (contents t)))) = [] then 0
               else Suc (last (nonzero (not_None (butlast (take (Suc li) (contents t)))))),
               Suc (li + j)))"
  by (simp add: in_out_indices_def Let_def split: list.split)

lemma in_out_indices_fails:
  assumes "\<forall>j. li < j \<and> j < length (contents t) \<longrightarrow> contents t ! j = None"
  shows "in_out_indices t li = Inl IndexError"
proof -
  have "nonzero (not_None (drop (Suc li) (contents t))) = []"
    using assms by (simp add: nonzero_Nil length_not_None not_None_nth)
  then show ?thesis by (simp add: in_out_indices_unfold)
qed

lemma in_out_indices_returns:
  assumes "\<exists>j. li < j \<and> j < length (contents t) \<and> contents t ! j \<noteq> None"
  shows "\<exists>in_index out_index.
           in_out_indices t li = Inr (in_index, out_index)
         \<and> in_index \<le> li \<and> li < out_index
         \<and> out_index < length (contents t) \<and> contents t ! out_index \<noteq> None
         \<and> (\<forall>j. li < j \<and> j < out_index \<longrightarrow> contents t ! j = None)
         \<and> (if \<forall>i<li. contents t ! i = None then in_index = 0
             else \<exists>p<li. in_index = p + 1 \<and> contents t ! p \<noteq> None
                    \<and> (\<forall>i. p < i \<and> i < li \<longrightarrow> contents t ! i = None))"
proof -
  define cs where "cs = contents t"
  define sub where "sub = nonzero (not_None (drop (Suc li) cs))"
  define pre where "pre = nonzero (not_None (take li cs))"
  from assms obtain j where j: "li < j" "j < length cs" "cs ! j \<noteq> None"
    by (auto simp: cs_def)
  then have li: "li + 1 \<le> length cs" by simp
  have bl: "butlast (take (Suc li) cs) = take li cs"
    using li by (simp add: butlast_take)
  have "not_None (drop (Suc li) cs) ! (j - Suc li)"
    using j by (simp add: not_None_nth)
  moreover have "j - Suc li < length (not_None (drop (Suc li) cs))"
    using j by (simp add: length_not_None)
  ultimately have "sub \<noteq> []"
    unfolding sub_def nonzero_Nil by blast
  then obtain k ks where sub: "sub = k # ks" by (cases sub) auto
  note kk = nonzero_Cons [OF sub [unfolded sub_def]]
  have k1: "li + 1 + k < length cs"
    using kk(1) by (simp add: length_not_None)
  have k2: "cs ! (li + 1 + k) \<noteq> None"
    using kk(1,2) by (simp add: length_not_None not_None_nth)
  have k3: "\<forall>j. li < j \<and> j < li + 1 + k \<longrightarrow> cs ! j = None"
  proof (intro allI impI)
    fix j assume a: "li < j \<and> j < li + 1 + k"
    then have lt: "j - Suc li < k" by arith
    with kk(3) have "\<not> not_None (drop (Suc li) cs) ! (j - Suc li)" by blast
    moreover have "j - Suc li < length (drop (Suc li) cs)"
      using lt kk(1) by (simp add: length_not_None)
    ultimately have "drop (Suc li) cs ! (j - Suc li) = None"
      by (simp add: not_None_nth)
    then show "cs ! j = None" using a li by simp
  qed
  have "in_out_indices t li =
      (case sub of [] \<Rightarrow> Inl IndexError
       | j # _ \<Rightarrow> Inr (if pre = [] then 0 else Suc (last pre), Suc (li + j)))"
    unfolding in_out_indices_unfold sub_def pre_def cs_def [symmetric] bl ..
  with sub have res: "in_out_indices t li =
      Inr (if pre = [] then 0 else last pre + 1, li + 1 + k)"
    by simp
  have len_pre: "length (not_None (take li cs)) = li"
    using li by (simp add: length_not_None)
  have nn: "not_None (take li cs) ! i \<longleftrightarrow> cs ! i \<noteq> None" if "i < li" for i
    using that li by (simp add: not_None_nth)
  have pre_prop: "if \<forall>i<li. cs ! i = None then pre = []
            else pre \<noteq> [] \<and> last pre < li \<and> cs ! last pre \<noteq> None
                  \<and> (\<forall>i. last pre < i \<and> i < li \<longrightarrow> cs ! i = None)"
  proof (cases "\<forall>i<li. cs ! i = None")
    case True
    then have "pre = []"
      unfolding pre_def nonzero_Nil len_pre by (simp add: nn)
    with True show ?thesis by simp
  next
    case False
    then obtain i where i: "i < li" "cs ! i \<noteq> None" by blast
    then have "not_None (take li cs) ! i" by (simp add: nn)
    with i(1) have ne: "pre \<noteq> []"
      unfolding pre_def nonzero_Nil len_pre by blast
    note ll = nonzero_last [OF ne [unfolded pre_def]]
    have l1: "last pre < li" using ll(1) len_pre by (simp add: pre_def)
    have l2: "cs ! last pre \<noteq> None"
      using ll(2) l1 by (simp add: pre_def [symmetric] nn)
    have l3: "\<forall>i. last pre < i \<and> i < li \<longrightarrow> cs ! i = None"
    proof (intro allI impI)
      fix i assume a: "last pre < i \<and> i < li"
      with ll(3) len_pre have "\<not> not_None (take li cs) ! i"
        by (simp add: pre_def [symmetric])
      with a show "cs ! i = None" by (simp add: nn)
    qed
    from False ne l1 l2 l3 show ?thesis by simp
  qed
  show ?thesis
  proof (cases "\<forall>i<li. cs ! i = None")
    case True
    with pre_prop have "pre = []" by simp
    with res have "in_out_indices t li = Inr (0, li + 1 + k)" by simp
    with True k1 k2 k3 show ?thesis
      unfolding cs_def by (intro exI [of _ 0] exI [of _ "li + 1 + k"]) simp
  next
    case False
    with pre_prop have p: "pre \<noteq> []" "last pre < li" "cs ! last pre \<noteq> None"
      "\<forall>i. last pre < i \<and> i < li \<longrightarrow> cs ! i = None" by simp_all
    from res p(1) have "in_out_indices t li = Inr (last pre + 1, li + 1 + k)" by simp
    moreover have "\<exists>q<li. last pre + 1 = q + 1 \<and> cs ! q \<noteq> None
                    \<and> (\<forall>i. q < i \<and> i < li \<longrightarrow> cs ! i = None)"
      using p by (intro exI [of _ "last pre"]) simp
    ultimately show ?thesis
      using False k1 k2 k3 p(2) unfolding cs_def
      by (intro exI [of _ "last pre + 1"] exI [of _ "li + 1 + k"]) simp
  qed
qed

text \<open>
  Claim C6. When some slot after \<open>layer_index\<close> is enabled, \<open>in_out_indices\<close> returns
  a pair \<open>(in_index, out_index)\<close> with \<open>in_index \<le> layer_index < out_index\<close>;
  \<open>out_index\<close> is the nearest enabled slot after \<open>layer_index\<close>, and \<open>in_index\<close> is
  one past the nearest enabled slot before \<open>layer_index\<close>, or 0 when no slot before it
  is enabled. When no slot after \<open>layer_index\<close> is enabled the call fails.
\<close>

theorem in_out_indices_spec:
  "if \<exists>j. layer_index < j \<and> j < length (contents t) \<and> contents t ! j \<noteq> None
   then \<exists>in_index out_index.
           in_out_indices t layer_index = Inr (in_index, out_index)
         \<and> in_index \<le> layer_index \<and> layer_index < out_index
         \<and> out_index < length (contents t) \<and> contents t ! out_index \<noteq> None
         \<and> (\<forall>j. layer_index < j \<and> j < out_index \<longrightarrow> contents t ! j = None)
         \<and> (if \<forall>i<layer_index. contents t ! i = None then in_index = 0
             else \<exists>p<layer_index. in_index = p + 1 \<and> contents t ! p \<noteq> None
                    \<and> (\<forall>i. p < i \<and> i < layer_index \<longrightarrow> contents t ! i = None))
   else in_out_indices t layer_index = Inl IndexError"
proof (cases "\<exists>j. layer_index < j \<and> j < length (contents t) \<and> contents t ! j \<noteq> None")
  case True
  from in_out_indices_returns [OF True] True show ?thesis by simp
next
  case False
  then have "\<forall>j. layer_index < j \<and> j < length (contents t) \<longrightarrow> contents t ! j = None"
    by blast
  from in_out_indices_fails [OF this] False show ?thesis by simp
qed

theorem in_out_indices_spec_witness:
  "(\<exists>j. 1 < j \<and> j < length [Some 2, None, None, Some (2::int)]
        \<and> [Some 2, None, None, Some (2::int)] ! j \<noteq> None)
   \<and> in_out_indices
        \<lparr>capacities = [4, 4, 4, 2], contents = [Some 2, None, None, Some 2],
         rational = False\<rparr> 1 = Inr (1, 3)"
proof -
  let ?t = "\<lparr>capacities = [4, 4, 4, 2], contents = [Some 2, None, None, Some 2],
             rational = False\<rparr>"
  have h: "\<exists>j. (1::nat) < j \<and> j < length (contents ?t) \<and> contents ?t ! j \<noteq> None"
    by (intro exI [of _ 3]) simp
  note spec = in_out_indices_spec [of 1 ?t, unfolded if_P [OF h]]
  then obtain in_index out_index
    where r: "in_out_indices ?t 1 = Inr (in_index, out_index)"
    by blast
  have e: "in_out_indices ?t 1 = Inr (1, 3)"
    by code_simp
  from h have h': "\<exists>j. 1 < j \<and> j < length [Some 2, None, None, Some (2::int)]
        \<and> [Some 2, None, None, Some (2::int)] ! j \<noteq> None"
    by simp
  from r e h' show ?thesis by blast
qed

section \<open>Properties of the proposer\<close>

lemma verify_layers_ok:
  "verify_layers i ps = Inr () \<longleftrightarrow>
     (\<forall>k<length ps. \<forall>w. fst (ps ! k) = Some w \<longrightarrow> w = sum_not_null (snd (ps ! k)))"
proof (induction ps arbitrary: i)
  case Nil
  show ?case by simp
next
  case (Cons p ps)
  obtain c n where p: "p = (c, n)" by (cases p)
  show ?case
  proof (cases c)
    case None
    with p Cons.IH [of "Suc i"] show ?thesis
      by (auto simp: nth_Cons split: nat.splits)
  next
    case (Some w)
    show ?thesis
    proof (cases "w = sum_not_null n")
      case True
      with p Some Cons.IH [of "Suc i"] show ?thesis
        by (auto simp: nth_Cons split: nat.splits)
    next
      case False
      with p Some have "verify_layers i (p # ps) \<noteq> Inr ()" by simp
      moreover have "\<not> (\<forall>k<length (p # ps). \<forall>w. fst ((p # ps) ! k) = Some w
                       \<longrightarrow> w = sum_not_null (snd ((p # ps) ! k)))"
        using p Some False by (intro notI) (auto dest: spec [of _ 0])
      ultimately show ?thesis by blast
    qed
  qed
qed

lemma verify_layers_err:
  "verify_layers i ps = Inl e \<Longrightarrow>
     \<exists>k w. k < length ps \<and> fst (ps ! k) = Some w \<and> w \<noteq> sum_not_null (snd (ps ! k))
         \<and> e = AssertionError (ContentNullMismatch (i + k) w (sum_not_null (snd (ps ! k))))"
proof (induction ps arbitrary: i)
  case Nil
  then show ?case by simp
next
  case (Cons p ps)
  obtain c n where p: "p = (c, n)" by (cases p)
  show ?case
  proof (cases "c = None \<or> c = Some (sum_not_null n)")
    case True
    with p Cons.prems have "verify_layers (Suc i) ps = Inl e" by auto
    from Cons.IH [OF this] obtain k w where
      "k < length ps" "fst (ps ! k) = Some w" "w \<noteq> sum_not_null (snd (ps ! k))"
      "e = AssertionError (ContentNullMismatch (Suc i + k) w (sum_not_null (snd (ps ! k))))"
      by blast
    then show ?thesis
      by (intro exI [of _ "Suc k"] exI [of _ w]) simp
  next
    case False
    then obtain w where w: "c = Some w" "w \<noteq> sum_not_null n" by (cases c) auto
    with p Cons.prems
    have "e = AssertionError (ContentNullMismatch i w (sum_not_null n))" by simp
    with p w show ?thesis
      by (intro exI [of _ 0] exI [of _ w]) simp
  qed
qed

text \<open>
  Claim C1. \<open>verify_state\<close> succeeds exactly when every slot whose content is set,
  paired with the null mask of its layer, has a content equal to the number of false
  entries of that mask. Otherwise it raises the assertion error of a mismatching layer;
  slots whose content is \<open>None\<close> are not checked.
\<close>

theorem verify_state_spec:
  "(verify_state model t state = Inr () \<longleftrightarrow>
      (\<forall>i. i < length (contents t) \<and> i < length (nulls model state) \<longrightarrow>
         (\<forall>c. contents t ! i = Some c \<longrightarrow> c = sum_not_null (nulls model state ! i))))
   \<and> (verify_state model t state \<noteq> Inr () \<longrightarrow>
      (\<exists>i c. i < length (contents t) \<and> i < length (nulls model state)
           \<and> contents t ! i = Some c \<and> c \<noteq> sum_not_null (nulls model state ! i)
           \<and> verify_state model t state =
               Inl (AssertionError
                     (ContentNullMismatch i c (sum_not_null (nulls model state ! i))))))"
proof
  show "verify_state model t state = Inr () \<longleftrightarrow>
      (\<forall>i. i < length (contents t) \<and> i < length (nulls model state) \<longrightarrow>
         (\<forall>c. contents t ! i = Some c \<longrightarrow> c = sum_not_null (nulls model state ! i)))"
    unfolding verify_state_def verify_layers_ok by simp
next
  show "verify_state model t state \<noteq> Inr () \<longrightarrow>
      (\<exists>i c. i < length (contents t) \<and> i < length (nulls model state)
           \<and> contents t ! i = Some c \<and> c \<noteq> sum_not_null (nulls model state ! i)
           \<and> verify_state model t state =
               Inl (AssertionError
                     (ContentNullMismatch i c (sum_not_null (nulls model state ! i)))))"
  proof
    assume "verify_state model t state \<noteq> Inr ()"
    then obtain e where e: "verify_layers 0 (zip (contents t) (nulls model state)) = Inl e"
      unfolding verify_state_def
      by (cases "verify_layers 0 (zip (contents t) (nulls model state))") auto
    from verify_layers_err [OF e] obtain k w where
      k: "k < length (zip (contents t) (nulls model state))"
      and w: "fst (zip (contents t) (nulls model state) ! k) = Some w"
        "w \<noteq> sum_not_null (snd (zip (contents t) (nulls model state) ! k))"
      and ee: "e = AssertionError (ContentNullMismatch (0 + k) w
                 (sum_not_null (snd (zip (contents t) (nulls model state) ! k))))"
      by blast
    from k have kk: "k < length (contents t)" "k < length (nulls model state)" by simp_all
    with w ee e show "\<exists>i c. i < length (contents t) \<and> i < length (nulls model state)
           \<and> contents t ! i = Some c \<and> c \<noteq> sum_not_null (nulls model state ! i)
           \<and> verify_state model t state =
               Inl (AssertionError
                     (ContentNullMismatch i c (sum_not_null (nulls model state ! i))))"
      unfolding verify_state_def
      by (intro exI [of _ k] exI [of _ w]) simp
  qed
qed

theorem verify_state_spec_witness:
  "verify_state
     \<lparr>nulls = (\<lambda>_. [[False, False, True], [True, True], [False]]),
      dormant = (\<lambda>_ _. False), null = (\<lambda>_ _. []),
      insert_feature = (\<lambda>(s::nat \<Rightarrow> unit) _ (_::unit) _. ())\<rparr>
     \<lparr>capacities = [3, 2, 1], contents = [Some 2, None, Some 1], rational = False\<rparr>
     (\<lambda>_. ()) = Inr ()
   \<and> verify_state
     \<lparr>nulls = (\<lambda>_. [[False, False, True], [True, True], [False]]),
      dormant = (\<lambda>_ _. False), null = (\<lambda>_ _. []),
      insert_feature = (\<lambda>(s::nat \<Rightarrow> unit) _ (_::unit) _. ())\<rparr>
     \<lparr>capacities = [3, 2, 1], contents = [Some 3, None, Some 1], rational = False\<rparr>
     (\<lambda>_. ()) \<noteq> Inr ()"
proof -
  let ?m = "\<lparr>nulls = (\<lambda>_. [[False, False, True], [True, True], [False]]),
      dormant = (\<lambda>_ _. False), null = (\<lambda>_ _. []),
      insert_feature = (\<lambda>(s::nat \<Rightarrow> unit) _ (_::unit) _. ())\<rparr>"
  let ?good = "\<lparr>capacities = [3, 2, 1], contents = [Some 2, None, Some 1],
                rational = False\<rparr>"
  let ?bad = "\<lparr>capacities = [3, 2, 1], contents = [Some 3, None, Some 1],
               rational = False\<rparr>"
  have "\<forall>i. i < length (contents ?good) \<and> i < length (nulls ?m (\<lambda>_. ())) \<longrightarrow>
         (\<forall>c. contents ?good ! i = Some c \<longrightarrow> c = sum_not_null (nulls ?m (\<lambda>_. ()) ! i))"
    by (simp add: sum_not_null_def nth_Cons split: nat.splits)
  then have g: "verify_state ?m ?good (\<lambda>_. ()) = Inr ()"
    using verify_state_spec [of ?m ?good "\<lambda>_. ()"] by blast
  have "\<not> (\<forall>i. i < length (contents ?bad) \<and> i < length (nulls ?m (\<lambda>_. ())) \<longrightarrow>
         (\<forall>c. contents ?bad ! i = Some c \<longrightarrow> c = sum_not_null (nulls ?m (\<lambda>_. ()) ! i)))"
    by (intro notI, drule spec [of _ 0]) (simp add: sum_not_null_def)
  then have b: "verify_state ?m ?bad (\<lambda>_. ()) \<noteq> Inr ()"
    using verify_state_spec [of ?m ?bad "\<lambda>_. ()"] by blast
  from g b show ?thesis by blast
qed

lemma argmax_first:
  assumes "True \<in> set bs"
  shows "argmax bs < length bs" and "bs ! argmax bs" and "\<forall>j<argmax bs. \<not> bs ! j"
proof -
  let ?n = "length (takeWhile (\<lambda>b. \<not> b) bs)"
  have a: "argmax bs = ?n" using assms by (simp add: argmax_def)
  have "takeWhile (\<lambda>b. \<not> b) bs \<noteq> bs"
    using assms by auto
  then have "?n \<noteq> length bs"
    by (metis takeWhile_eq_take take_all order_refl)
  moreover have "?n \<le> length bs" by (rule length_takeWhile_le)
  ultimately have lt: "?n < length bs" by simp
  then show "argmax bs < length bs" by (simp add: a)
  from nth_length_takeWhile [OF lt] show "bs ! argmax bs" by (simp add: a)
  show "\<forall>j<argmax bs. \<not> bs ! j"
  proof (intro allI impI)
    fix j assume "j < argmax bs"
    then have j: "j < ?n" by (simp add: a)
    then have "takeWhile (\<lambda>b. \<not> b) bs ! j \<in> set (takeWhile (\<lambda>b. \<not> b) bs)"
      by (rule nth_mem)
    then have "\<not> takeWhile (\<lambda>b. \<not> b) bs ! j" by (rule set_takeWhileD [THEN conjunct2])
    then show "\<not> bs ! j" using j by (simp add: takeWhile_nth)
  qed
qed

text \<open>
  Claim C7. \<open>embed_feature\<close> fails with an assertion error when the layer is dormant
  and when its null mask has no true entry. Otherwise the slot index it hands to
  \<open>insert_feature\<close> is the position of the first true entry of the null mask, the
  layer's parameters become what \<open>insert_feature\<close> returns for that index, and the
  parameters of every other layer are left as they were.
\<close>

theorem embed_feature_spec:
  "if dormant model state layer_index
   then embed_feature model state feature layer_index = Inl (AssertionError LayerDormant)
   else if \<forall>b \<in> set (null model state layer_index). \<not> b
   then embed_feature model state feature layer_index = Inl (AssertionError NoNullSlot)
   else \<exists>idx state'.
          idx < length (null model state layer_index)
        \<and> null model state layer_index ! idx
        \<and> (\<forall>j<idx. \<not> null model state layer_index ! j)
        \<and> embed_feature model state feature layer_index = Inr state'
        \<and> state' layer_index = insert_feature model state layer_index feature idx
        \<and> (\<forall>k. k \<noteq> layer_index \<longrightarrow> state' k = state k)"
proof (cases "dormant model state layer_index")
  case True
  then show ?thesis by (simp add: embed_feature_def)
next
  case nd: False
  show ?thesis
  proof (cases "\<forall>b \<in> set (null model state layer_index). \<not> b")
    case True
    then have "embed_feature model state feature layer_index
        = Inl (AssertionError NoNullSlot)"
      using nd by (auto simp: embed_feature_def Let_def)
    then show ?thesis unfolding if_not_P [OF nd] if_P [OF True] .
  next
    case False
    then have mem: "True \<in> set (null model state layer_index)" by auto
    note am = argmax_first [OF mem]
    let ?idx = "argmax (null model state layer_index)"
    let ?st = "state(layer_index := insert_feature model state layer_index feature ?idx)"
    have r: "embed_feature model state feature layer_index = Inr ?st"
      using nd False by (simp add: embed_feature_def Let_def)
    have "?idx < length (null model state layer_index)
        \<and> null model state layer_index ! ?idx
        \<and> (\<forall>j<?idx. \<not> null model state layer_index ! j)
        \<and> embed_feature model state feature layer_index = Inr ?st
        \<and> ?st layer_index = insert_feature model state layer_index feature ?idx
        \<and> (\<forall>k. k \<noteq> layer_index \<longrightarrow> ?st k = state k)"
      using am r by simp
    then have "\<exists>idx state'.
          idx < length (null model state layer_index)
        \<and> null model state layer_index ! idx
        \<and> (\<forall>j<idx. \<not> null model state layer_index ! j)
        \<and> embed_feature model state feature layer_index = Inr state'
        \<and> state' layer_index = insert_feature model state layer_index feature idx
        \<and> (\<forall>k. k \<noteq> layer_index \<longrightarrow> state' k = state k)"
      by blast
    then show ?thesis unfolding if_not_P [OF nd] if_not_P [OF False] .
  qed
qed

text \<open>
  A layer whose parameters are the list of its slots, some of them free: the first two
  slots hold features, the third is the first free one.
\<close>

theorem embed_feature_spec_witness:
  "\<exists>state'. embed_feature
       \<lparr>nulls = (\<lambda>s. [map (\<lambda>x. x = None) (s 0)]),
        dormant = (\<lambda>s i. s i = []), null = (\<lambda>s i. map (\<lambda>x. x = None) (s i)),
        insert_feature = (\<lambda>s i f idx. (s i)[idx := Some f])\<rparr>
       (\<lambda>_. [Some (1::nat), Some 2, None, None]) 7 0 = Inr state'
     \<and> state' 0 = [Some 1, Some 2, Some 7, None]
     \<and> state' 1 = [Some 1, Some 2, None, None]"
proof -
  let ?m = "\<lparr>nulls = (\<lambda>s. [map (\<lambda>x. x = None) (s 0)]),
        dormant = (\<lambda>s i. s i = []), null = (\<lambda>s i. map (\<lambda>x. x = None) (s i)),
        insert_feature = (\<lambda>s i (f::nat) idx. (s i)[idx := Some f])\<rparr>"
  let ?s = "\<lambda>_::nat. [Some (1::nat), Some 2, None, None]"
  have nd: "\<not> dormant ?m ?s 0" by simp
  have nn: "\<not> (\<forall>b \<in> set (null ?m ?s 0). \<not> b)" by auto
  from embed_feature_spec [of ?m ?s 0 7] nd nn
  obtain idx state' where
    i: "idx < length (null ?m ?s 0)" "null ?m ?s 0 ! idx" "\<forall>j<idx. \<not> null ?m ?s 0 ! j"
    and r: "embed_feature ?m ?s 7 0 = Inr state'"
      "state' 0 = insert_feature ?m ?s 0 7 idx" "\<forall>k. k \<noteq> 0 \<longrightarrow> state' k = ?s k"
    unfolding if_not_P [OF nd] if_not_P [OF nn] by blast
  have "idx = 2"
  proof -
    have "idx < 4" using i(1) by simp
    moreover have "idx \<noteq> 0"
    proof
      assume "idx = 0" with i(2) show False by simp
    qed
    moreover have "idx \<noteq> 1"
    proof
      assume "idx = 1" with i(2) show False by simp
    qed
    moreover have "idx \<noteq> 3" using i(3) by (auto dest: spec [of _ 2])
    ultimately show ?thesis by arith
  qed
  with r have "state' 0 = [Some 1, Some 2, Some 7, None]" by simp
  moreover from r(3) have "state' 1 = [Some 1, Some 2, None, None]" by simp
  ultimately show ?thesis using r(1) by blast
qed

section \<open>Properties of the sampler\<close>

lemma bindices_pos:
  assumes "0 < b"
  shows "bindices pindices b k = take (nat b) (drop (k * nat b) pindices)"
proof -
  have "nat (int k * b) = k * nat b"
    using assms by (simp add: nat_mult_distrib)
  moreover have "0 \<le> int k * b" using assms by simp
  ultimately show ?thesis
    using assms by (simp add: bindices_def slice_to_def slice_from_def)
qed

lemma num_batches_nat:
  assumes "0 < b"
  shows "int n div b = int (n div nat b)"
proof -
  have "b = int (nat b)" using assms by simp
  then have "int n div b = int n div int (nat b)" by simp
  also have "\<dots> = int (n div nat b)" by (simp add: zdiv_int)
  finally show ?thesis .
qed

lemma concat_chunks:
  "concat (map (\<lambda>k. take m (drop (k * m) xs)) [0..<q]) = take (q * m) xs"
proof (induction q)
  case 0
  show ?case by simp
next
  case (Suc q)
  have "take (Suc q * m) xs = take (q * m + m) xs" by (simp add: add.commute)
  also have "\<dots> = take (q * m) xs @ take m (drop (q * m) xs)" by (rule take_add)
  finally show ?case using Suc.IH by simp
qed

lemma chunk_length:
  assumes "k < length xs div m"
  shows "length (take m (drop (k * m) xs)) = m"
proof -
  have "Suc k * m \<le> (length xs div m) * m"
    using assms by (intro mult_le_mono1) simp
  also have "\<dots> \<le> length xs" by simp
  finally have "k * m + m \<le> length xs" by (simp add: add.commute)
  then show ?thesis by simp
qed

lemma chunk_subset_take:
  "set (take m (drop (j * m) xs)) \<subseteq> set (take (Suc j * m) xs)"
proof -
  have "take (Suc j * m) xs = take (j * m) xs @ take m (drop (j * m) xs)"
    using take_add [of "j * m" m xs] by (simp add: add.commute)
  then show ?thesis by simp
qed

lemma chunks_disjoint:
  assumes "distinct xs" and "j < k"
  shows "set (take m (drop (j * m) xs)) \<inter> set (take m (drop (k * m) xs)) = {}"
proof -
  have "Suc j * m \<le> k * m" using assms(2) by (intro mult_le_mono1) simp
  then have "set (take (Suc j * m) xs) \<subseteq> set (take (k * m) xs)"
    by (rule set_take_subset_set_take)
  with chunk_subset_take [of m j xs]
  have a: "set (take m (drop (j * m) xs)) \<subseteq> set (take (k * m) xs)" by blast
  have b: "set (take m (drop (k * m) xs)) \<subseteq> set (drop (k * m) xs)"
    by (rule set_take_subset)
  have "distinct (take (k * m) xs @ drop (k * m) xs)" using assms(1) by simp
  then have "set (take (k * m) xs) \<inter> set (drop (k * m) xs) = {}"
    unfolding distinct_append by blast
  with a b show ?thesis by blast
qed

lemma trailing_disjoint:
  assumes "distinct xs"
  shows "set (take n xs) \<inter> set (drop n xs) = {}"
proof -
  have "distinct (take n xs @ drop n xs)" using assms by simp
  then show ?thesis unfolding distinct_append by blast
qed

lemma trailing_length: "length (drop (length xs div m * m) xs) = length xs mod m"
  by (simp add: minus_div_mult_eq_mod)

lemma batches_pos:
  assumes "batch_size s = Some b" and "0 < b"
  shows "batches pindices s =
           Inr (map (\<lambda>k. (gather (dataset s) (bindices pindices b k),
                           gather (labels s) (bindices pindices b k)))
                    [0..<length (dataset s) div nat b])"
    and "num_batches s = Inr (int (length (dataset s) div nat b))"
  using assms
  by (simp_all add: batches_def num_batches_def Let_def num_batches_nat)

text \<open>
  Claim C10 as stated fails for a batch size that is not positive: with five examples
  and a batch size of -2, \<open>num_batches\<close> returns -3 and \<open>batches\<close> yields no batch.
\<close>

theorem sampler_batches_counterexample:
  "num_batches
     \<lparr>dataset = [10, 11, 12, 13, 14 :: nat],
      labels = [0, 1, 2, 3, 4 :: nat], batch_size = Some (- 2)\<rparr> = Inr (- 3)
   \<and> batches [3, 1, 4, 0, 2]
     \<lparr>dataset = [10, 11, 12, 13, 14 :: nat],
      labels = [0, 1, 2, 3, 4 :: nat], batch_size = Some (- 2)\<rparr> = Inr []"
  by (simp add: num_batches_def batches_def)

text \<open>
  Claim C10, amended. Without a batch size, \<open>batches\<close> yields the whole dataset once
  and \<open>num_batches\<close> is 1. With a positive batch size \<open>b\<close> and a permutation
  \<open>pindices\<close> of the dataset's positions, \<open>batches\<close> yields as many batches as
  \<open>num_batches\<close> returns, the dataset's length divided by \<open>b\<close> and rounded down; each
  batch holds the \<open>b\<close> examples at the next \<open>b\<close> positions of the permutation, so that
  the batches taken together are its first \<open>num_batches * b\<close> positions, no position
  is used twice, and its last \<open>len(dataset) mod b\<close> positions are used by no batch.
\<close>

theorem sampler_batches_spec:
  "(batch_size s = None \<longrightarrow>
      batches pindices s = Inr [(dataset s, labels s)] \<and> num_batches s = Inr 1)
   \<and> (\<forall>b. batch_size s = Some b \<and> 0 < b
          \<and> distinct pindices \<and> set pindices = {..<length (dataset s)} \<longrightarrow>
      (\<exists>ys. batches pindices s = Inr ys
          \<and> num_batches s = Inr (int (length ys))
          \<and> int (length ys) = int (length (dataset s)) div b
          \<and> (\<forall>k<length ys.
                ys ! k = (gather (dataset s) (bindices pindices b k),
                          gather (labels s) (bindices pindices b k))
              \<and> length (fst (ys ! k)) = nat b
              \<and> length (bindices pindices b k) = nat b)
          \<and> concat (map (bindices pindices b) [0..<length ys])
              = take (length ys * nat b) pindices
          \<and> (\<forall>j k. j < k \<and> k < length ys \<longrightarrow>
                set (bindices pindices b j) \<inter> set (bindices pindices b k) = {})
          \<and> length (drop (length ys * nat b) pindices) = length (dataset s) mod nat b
          \<and> (\<forall>k<length ys.
                set (bindices pindices b k)
                  \<inter> set (drop (length ys * nat b) pindices) = {})))"
proof (intro conjI impI allI)
  assume "batch_size s = None"
  then show "batches pindices s = Inr [(dataset s, labels s)]"
    by (simp add: batches_def)
next
  assume "batch_size s = None"
  then show "num_batches s = Inr 1"
    by (simp add: num_batches_def)
next
  fix b
  assume a: "batch_size s = Some b \<and> 0 < b
          \<and> distinct pindices \<and> set pindices = {..<length (dataset s)}"
  define m where "m = nat b"
  define q where "q = length (dataset s) div m"
  define ys where "ys = map (\<lambda>k. (gather (dataset s) (bindices pindices b k),
                           gather (labels s) (bindices pindices b k))) [0..<q]"
  from a have b: "0 < b" and d: "distinct pindices" by simp_all
  have "card (set pindices) = length pindices" using d by (rule distinct_card)
  with a have len: "length pindices = length (dataset s)" by simp
  have bi: "bindices pindices b k = take m (drop (k * m) pindices)" for k
    unfolding m_def by (rule bindices_pos [OF b])
  have lys: "length ys = q" by (simp add: ys_def)
  have q': "q = length pindices div m" by (simp add: q_def len)
  have r1: "batches pindices s = Inr ys"
    using batches_pos(1) [of s b pindices] a by (simp add: ys_def q_def m_def)
  have r2: "num_batches s = Inr (int (length ys))"
    using batches_pos(2) [of s b] a by (simp add: lys q_def m_def)
  have r3: "int (length ys) = int (length (dataset s)) div b"
    by (simp add: lys q_def m_def num_batches_nat [OF b])
  have cl: "length (bindices pindices b k) = m" if "k < q" for k
    unfolding bi using that unfolding q' by (rule chunk_length)
  have r4: "\<forall>k<length ys.
                ys ! k = (gather (dataset s) (bindices pindices b k),
                          gather (labels s) (bindices pindices b k))
              \<and> length (fst (ys ! k)) = nat b
              \<and> length (bindices pindices b k) = nat b"
    using cl by (simp add: lys ys_def gather_def m_def)
  have "bindices pindices b = (\<lambda>k. take m (drop (k * m) pindices))"
    by (rule ext) (rule bi)
  then have "concat (map (bindices pindices b) [0..<q]) = take (q * m) pindices"
    by (simp only: concat_chunks)
  then have r5: "concat (map (bindices pindices b) [0..<length ys])
              = take (length ys * nat b) pindices"
    by (simp only: lys m_def)
  have r6: "\<forall>j k. j < k \<and> k < length ys \<longrightarrow>
                set (bindices pindices b j) \<inter> set (bindices pindices b k) = {}"
    unfolding bi using chunks_disjoint [OF d] by blast
  have r7: "length (drop (length ys * nat b) pindices) = length (dataset s) mod nat b"
    using trailing_length [of pindices m] by (simp add: lys q' m_def [symmetric] len)
  have r8: "\<forall>k<length ys.
                set (bindices pindices b k)
                  \<inter> set (drop (length ys * nat b) pindices) = {}"
  proof (intro allI impI)
    fix k assume "k < length ys"
    then have "Suc k * m \<le> q * m" by (intro mult_le_mono1) (simp add: lys)
    then have "set (take (Suc k * m) pindices) \<subseteq> set (take (q * m) pindices)"
      by (rule set_take_subset_set_take)
    with chunk_subset_take [of m k pindices]
    have "set (bindices pindices b k) \<subseteq> set (take (q * m) pindices)"
      unfolding bi by blast
    with trailing_disjoint [OF d, of "q * m"]
    show "set (bindices pindices b k) \<inter> set (drop (length ys * nat b) pindices) = {}"
      unfolding lys m_def by blast
  qed
  from r1 r2 r3 r4 r5 r6 r7 r8
  show "\<exists>ys. batches pindices s = Inr ys
          \<and> num_batches s = Inr (int (length ys))
          \<and> int (length ys) = int (length (dataset s)) div b
          \<and> (\<forall>k<length ys.
                ys ! k = (gather (dataset s) (bindices pindices b k),
                          gather (labels s) (bindices pindices b k))
              \<and> length (fst (ys ! k)) = nat b
              \<and> length (bindices pindices b k) = nat b)
          \<and> concat (map (bindices pindices b) [0..<length ys])
              = take (length ys * nat b) pindices
          \<and> (\<forall>j k. j < k \<and> k < length ys \<longrightarrow>
                set (bindices pindices b j) \<inter> set (bindices pindices b k) = {})
          \<and> length (drop (length ys * nat b) pindices) = length (dataset s) mod nat b
          \<and> (\<forall>k<length ys.
                set (bindices pindices b k)
                  \<inter> set (drop (length ys * nat b) pindices) = {})"
    by (intro exI [of _ ys] conjI)
qed

theorem sampler_batches_spec_witness:
  "batches [3, 1, 4, 0, 2]
     \<lparr>dataset = [10, 11, 12, 13, 14 :: nat],
      labels = [0, 1, 2, 3, 4 :: nat], batch_size = Some 2\<rparr>
     = Inr [([13, 11], [3, 1]), ([14, 10], [4, 0])]
   \<and> num_batches
     \<lparr>dataset = [10, 11, 12, 13, 14 :: nat],
      labels = [0, 1, 2, 3, 4 :: nat], batch_size = Some 2\<rparr> = Inr 2
   \<and> batches [3, 1, 4, 0, 2]
     \<lparr>dataset = [10, 11, 12, 13, 14 :: nat],
      labels = [0, 1, 2, 3, 4 :: nat], batch_size = None\<rparr>
     = Inr [([10, 11, 12, 13, 14], [0, 1, 2, 3, 4])]"
proof -
  let ?p = "[3, 1, 4, 0, 2 :: nat]"
  let ?s = "\<lparr>dataset = [10, 11, 12, 13, 14 :: nat],
      labels = [0, 1, 2, 3, 4 :: nat], batch_size = Some 2\<rparr>"
  let ?w = "\<lparr>dataset = [10, 11, 12, 13, 14 :: nat],
      labels = [0, 1, 2, 3, 4 :: nat], batch_size = None\<rparr>"
  have "set ?p = {..<length [10, 11, 12, 13, 14 :: nat]}"
    by (auto simp: lessThan_def)
  then have h: "batch_size ?s = Some 2 \<and> (0::int) < 2
          \<and> distinct ?p \<and> set ?p = {..<length (dataset ?s)}"
    by simp
  have "\<exists>ys. batches ?p ?s = Inr ys \<and> num_batches ?s = Inr (int (length ys))"
    using sampler_batches_spec [of ?s ?p, THEN conjunct2, rule_format, OF h]
    apply (rule exE)
    apply (rule exI)
    apply (rule conjI)
     apply (erule conjunct1)
    apply (erule conjunct2 [THEN conjunct1])
    done
  then obtain ys where ys: "batches ?p ?s = Inr ys"
      "num_batches ?s = Inr (int (length ys))"
    by blast
  have e: "batches ?p ?s = Inr [([13, 11], [3, 1]), ([14, 10], [4, 0])]"
    by code_simp
  with ys(1) have "ys = [([13, 11], [3, 1]), ([14, 10], [4, 0])]" by simp
  with ys(2) have n: "num_batches ?s = Inr 2" by simp
  have "batch_size ?w = None" by simp
  from sampler_batches_spec [of ?w ?p, THEN conjunct1, rule_format, OF this]
  have w: "batches ?p ?w = Inr [(dataset ?w, labels ?w)]" by (rule conjunct1)
  then have w': "batches ?p ?w = Inr [([10, 11, 12, 13, 14], [0, 1, 2, 3, 4])]"
    by simp
  from e n w' show ?thesis by (intro conjI)
qed

section \<open>Properties of the feature optimizers\<close>

lemma mala_fun_lr:
  "lr (fst (mala_fun burst state key)) =
     (let r = snd (snd (burst (mala_feature state) key (lr state)))
      in if r > 0.6 + 0.3 then lr state * 1.3
         else if r < 0.6 - 0.3 then lr state / 1.3
         else lr state)"
  by (auto simp: mala_fun_def Let_def split: prod.splits)

text \<open>
  Claim C4. After a burst with acceptance rate \<open>r\<close> run at step size \<open>lr\<close>, the step
  size of the next burst is \<open>lr * 1.3\<close> when \<open>r > 0.6 + 0.3\<close>, \<open>lr / 1.3\<close> when
  \<open>r < 0.6 - 0.3\<close>, and \<open>lr\<close> when \<open>|r - 0.6| \<le> 0.3\<close>.
\<close>

theorem mala_step_size_spec:
  assumes "burst (mala_feature state) key (lr state) = (new_rscore, new_feature, r)"
  shows "(r > 0.6 + 0.3 \<longrightarrow> lr (fst (mala_fun burst state key)) = lr state * 1.3)
       \<and> (r < 0.6 - 0.3 \<longrightarrow> lr (fst (mala_fun burst state key)) = lr state / 1.3)
       \<and> (\<bar>r - 0.6\<bar> \<le> 0.3 \<longrightarrow> lr (fst (mala_fun burst state key)) = lr state)
       \<and> snd (mala_fun burst state key) = r"
proof -
  have r: "snd (snd (burst (mala_feature state) key (lr state))) = r"
    using assms by simp
  have "snd (mala_fun burst state key) = r"
    using assms by (simp add: mala_fun_def Let_def)
  moreover have "r > 0.6 + 0.3 \<longrightarrow> lr (fst (mala_fun burst state key)) = lr state * 1.3"
    unfolding mala_fun_lr r Let_def by simp
  moreover have "r < 0.6 - 0.3 \<longrightarrow> lr (fst (mala_fun burst state key)) = lr state / 1.3"
    unfolding mala_fun_lr r Let_def by simp
  moreover have "\<bar>r - 0.6\<bar> \<le> 0.3 \<longrightarrow> lr (fst (mala_fun burst state key)) = lr state"
    unfolding mala_fun_lr r Let_def by auto
  ultimately show ?thesis by blast
qed

theorem mala_step_size_spec_witness:
  "lr (fst (mala_fun (\<lambda>f k l. (1, f, if k then 0.95 else 0.2))
        \<lparr>lr = 1, mala_rscore = 0, mala_feature = ()\<rparr> True)) = 1.3
   \<and> lr (fst (mala_fun (\<lambda>f k l. (1, f, if k then 0.95 else 0.2))
        \<lparr>lr = 1.3, mala_rscore = 0, mala_feature = ()\<rparr> False)) = 1"
proof -
  let ?burst = "\<lambda>(f::unit) k (l::real). (1::real, f, if k then 0.95 else (0.2::real))"
  let ?s1 = "\<lparr>lr = 1, mala_rscore = 0, mala_feature = ()\<rparr>"
  let ?s2 = "\<lparr>lr = 1.3, mala_rscore = 0, mala_feature = ()\<rparr>"
  have h1: "?burst (mala_feature ?s1) True (lr ?s1) = (1, (), 0.95)" by simp
  have a: "lr (fst (mala_fun ?burst ?s1 True)) = 1.3"
    using mala_step_size_spec [where burst = ?burst and state = ?s1 and key = True
        and new_rscore = 1 and new_feature = "()" and r = "0.95"] h1
    by simp
  have h2: "?burst (mala_feature ?s2) False (lr ?s2) = (1, (), 0.2)" by simp
  have b: "lr (fst (mala_fun ?burst ?s2 False)) = 1"
    using mala_step_size_spec [where burst = ?burst and state = ?s2 and key = False
        and new_rscore = 1 and new_feature = "()" and r = "0.2"] h2
    by simp
  from a b show ?thesis by (intro conjI)
qed

lemma body_fun_eps:
  "eps (body_fun single_sgd eps0 i state) = eps0
   \<or> eps (body_fun single_sgd eps0 i state) = eps0 / 3"
  by (simp add: body_fun_def Let_def split: prod.splits)

text \<open>
  Claim C5 says that the step size of the next iteration is the current one when the
  r-score increased and a third of the current one otherwise, and that it never
  increases. The loop body computes the next step size from the argument \<open>eps\<close> of
  \<open>kfac_direct_sgd\<close>, not from the step size in the loop state. Started at 0.9 on
  r-scores 1, 1/2, 1/4 the step sizes are 0.9, 0.9, 0.3, 0.3 (the last one is a ninth of
  the start in the claim); on r-scores 1, 1/2, 2 they are 0.9, 0.9, 0.3, 0.9, so the
  step size goes up again.
\<close>

theorem kfac_direct_sgd_step_sizes:
  "map (\<lambda>n. eps (sgd_loop (\<lambda>f e. ([1, 1/2, 1/4] ! f, Suc f)) 0.9 n 0)) [0, 1, 2, 3]
     = [0.9, 0.9, 0.3, 0.3]
   \<and> map (\<lambda>n. eps (sgd_loop (\<lambda>f e. ([1, 1/2, 2] ! f, Suc f)) 0.9 n 0)) [0, 1, 2, 3]
     = [0.9, 0.9, 0.3, 0.9]"
  by (simp add: sgd_loop_def body_fun_def numeral_2_eq_2 numeral_3_eq_3)

section \<open>Properties of the growth decisions\<close>








section \<open>Properties of the checkpoint restore\<close>

lemma restore_never_exits:
  "restore enable do_restore restore_checkpoint initial_train_state st cs \<noteq> Inl SystemExit"
  by (simp add: restore_def Let_def)

text \<open>
  Claim C8 says that a restore is rejected when the final entry of the restored contents
  differs from the configured final-output width. The test in \<open>main\<close> compares the
  restored final entry with itself, so it never rejects: with a configured output width
  of 2 and a checkpoint whose contents end in 5, the restore goes on with the
  checkpoint's state and contents.
\<close>

theorem restore_mismatched_width_proceeds:
  "restore True True
     (\<lambda>target. \<lparr>epoch = 7, train_contents = [Some 3, Some 5], solver_state = (1::nat)\<rparr>)
     \<lparr>epoch = 0, train_contents = [Some 3, Some 2], solver_state = 0\<rparr>
     0 [Some 3, Some 2]
   = Inr (\<lparr>epoch = 7, train_contents = [Some 3, Some 5], solver_state = 1\<rparr>,
          1, [Some 3, Some 5])"
  by (simp add: restore_def)

section \<open>Properties of the growth gate\<close>

lemma going_to_add_real:
  assumes "layer_score sc \<noteq> 0" and "loss_sqnorm sc \<noteq> 0"
  shows "going_to_add cfg sc \<longleftrightarrow>
           best_raw sc / layer_score sc > thresh cfg
         \<and> best_raw sc / loss_sqnorm sc > abs_thresh cfg"
  using assms by (simp add: going_to_add_def)

lemma going_to_insert_real:
  assumes "vlayer_score sc \<noteq> 0" and "loss_sqnorm sc \<noteq> 0"
    and "layer_cost_mul cfg \<noteq> 0" and "\<not> size_costing cfg"
  shows "going_to_insert cfg sc n \<longleftrightarrow>
           best_raw sc / layer_cost_mul cfg / vlayer_score sc > thresh cfg
         \<and> best_raw sc / layer_cost_mul cfg / loss_sqnorm sc > layer_abs_thresh cfg"
  using assms by (simp add: going_to_insert_def adjusted_metric_def)

text \<open>
  Claim C2 as stated fails: at layer 0 with 24 landscapes already saved, a candidate that
  passes both thresholds makes the 25th save, and \<open>consider_adding_width\<close> exits the
  program instead of returning a modification.
\<close>

theorem consider_adding_width_counterexample:
  "best_raw \<lparr>best_raw = 1, layer_score = 1, vlayer_score = 1, loss_sqnorm = 1, baseline = 1\<rparr>
     / layer_score \<lparr>best_raw = 1, layer_score = 1, vlayer_score = 1, loss_sqnorm = 1,
                    baseline = 1\<rparr>
     > thresh \<lparr>thresh = 0.1, abs_thresh = 0.1, layer_abs_thresh = 0.1, layer_cost_mul = 1,
               size_costing = False\<rparr>
   \<and> best_raw \<lparr>best_raw = 1, layer_score = 1, vlayer_score = 1, loss_sqnorm = 1, baseline = 1\<rparr>
     / loss_sqnorm \<lparr>best_raw = 1, layer_score = 1, vlayer_score = 1, loss_sqnorm = 1,
                    baseline = 1\<rparr>
     > abs_thresh \<lparr>thresh = 0.1, abs_thresh = 0.1, layer_abs_thresh = 0.1,
                   layer_cost_mul = 1, size_costing = False\<rparr>
   \<and> consider_adding_width (\<lambda>s (f::unit) i. Inr (s::unit))
       \<lparr>thresh = 0.1, abs_thresh = 0.1, layer_abs_thresh = 0.1, layer_cost_mul = 1,
        size_costing = False\<rparr>
       \<lparr>best_raw = 1, layer_score = 1, vlayer_score = 1, loss_sqnorm = 1, baseline = 1\<rparr>
       () () 0 False \<lparr>save_index = 24, just_added = False\<rparr>
     = (Inl SystemExit, \<lparr>save_index = 25, just_added = False\<rparr>)"
  by (simp add: consider_adding_width_def going_to_add_def)

text \<open>
  Claim C2, amended. \<open>consider_adding_width\<close> exits the program when the landscape of
  layer 0 is saved for the 25th time. Otherwise it returns \<open>None\<close> when the gate fails
  (the best local ratio or the normalized score does not exceed its threshold), and when
  the gate passes it returns the width modification holding the state \<open>embed_feature\<close>
  gives, or fails as \<open>embed_feature\<close> does. \<open>consider_inserting_layer\<close>, on a dormant
  slot, returns \<open>None\<close> when its gate fails, and when it passes the depth modification
  holding the state \<open>embed_layer\<close> gives, or fails as \<open>embed_layer\<close> does. Either
  function returns a modification only when its gate passes.
\<close>

theorem growth_gate_spec:
  "(let exits = ((going_to_add cfg sc \<or> just_added ls \<or> fin) \<and> li = 0
                  \<and> save_index ls + 1 \<ge> 25);
        r = fst (consider_adding_width emb cfg sc bf st li fin ls)
    in (exits \<longrightarrow> r = Inl SystemExit)
     \<and> (\<not> exits \<and> \<not> going_to_add cfg sc \<longrightarrow> r = Inr None)
     \<and> (\<not> exits \<and> going_to_add cfg sc \<longrightarrow>
          (case emb st bf li of
             Inl e \<Rightarrow> r = Inl e
           | Inr ns \<Rightarrow>
               r = Inr (Some (WidthModification
                                (xadd 1 (xdiv (Finite (best_raw sc)) (baseline sc))) li ns))))
     \<and> ((\<exists>m. r = Inr (Some m)) \<longrightarrow> going_to_add cfg sc)
     \<and> (r = Inr None \<longrightarrow> \<not> going_to_add cfg sc))
   \<and> (li < length (contents t) \<and> contents t ! li = None \<longrightarrow>
       (let r = consider_inserting_layer emb t cfg sc n bf st li
        in (\<not> going_to_insert cfg sc n \<longrightarrow> r = Inr None)
         \<and> (going_to_insert cfg sc n \<longrightarrow>
              (case emb st bf li of
                 Inl e \<Rightarrow> r = Inl e
               | Inr ns \<Rightarrow>
                   r = Inr (Some (DepthModification
                                    (xadd 1 (xdiv (adjusted_metric cfg sc n) (baseline sc)))
                                    li ns))))
         \<and> ((\<exists>m. r = Inr (Some m)) \<longrightarrow> going_to_insert cfg sc n)
         \<and> (r = Inr None \<longrightarrow> \<not> going_to_insert cfg sc n)))"
proof (rule conjI)
  show "let exits = ((going_to_add cfg sc \<or> just_added ls \<or> fin) \<and> li = 0
                  \<and> save_index ls + 1 \<ge> 25);
        r = fst (consider_adding_width emb cfg sc bf st li fin ls)
    in (exits \<longrightarrow> r = Inl SystemExit)
     \<and> (\<not> exits \<and> \<not> going_to_add cfg sc \<longrightarrow> r = Inr None)
     \<and> (\<not> exits \<and> going_to_add cfg sc \<longrightarrow>
          (case emb st bf li of
             Inl e \<Rightarrow> r = Inl e
           | Inr ns \<Rightarrow>
               r = Inr (Some (WidthModification
                                (xadd 1 (xdiv (Finite (best_raw sc)) (baseline sc))) li ns))))
     \<and> ((\<exists>m. r = Inr (Some m)) \<longrightarrow> going_to_add cfg sc)
     \<and> (r = Inr None \<longrightarrow> \<not> going_to_add cfg sc)"
    by (cases "emb st bf li")
       (auto simp: consider_adding_width_def Let_def split: if_splits)
next
  show "li < length (contents t) \<and> contents t ! li = None \<longrightarrow>
       (let r = consider_inserting_layer emb t cfg sc n bf st li
        in (\<not> going_to_insert cfg sc n \<longrightarrow> r = Inr None)
         \<and> (going_to_insert cfg sc n \<longrightarrow>
              (case emb st bf li of
                 Inl e \<Rightarrow> r = Inl e
               | Inr ns \<Rightarrow>
                   r = Inr (Some (DepthModification
                                    (xadd 1 (xdiv (adjusted_metric cfg sc n) (baseline sc)))
                                    li ns))))
         \<and> ((\<exists>m. r = Inr (Some m)) \<longrightarrow> going_to_insert cfg sc n)
         \<and> (r = Inr None \<longrightarrow> \<not> going_to_insert cfg sc n))"
    by (cases "emb st bf li")
       (auto simp: consider_inserting_layer_def Let_def split: if_splits)
qed

theorem growth_gate_spec_witness:
  "fst (consider_adding_width (\<lambda>s (f::unit) i. Inr (s::unit))
       \<lparr>thresh = 0.1, abs_thresh = 0.1, layer_abs_thresh = 0.1, layer_cost_mul = 1,
        size_costing = False\<rparr>
       \<lparr>best_raw = 1, layer_score = 1, vlayer_score = 1, loss_sqnorm = 1, baseline = 1\<rparr>
       () () 1 False \<lparr>save_index = 24, just_added = False\<rparr>)
     = Inr (Some (WidthModification (Finite 2) 1 ()))
   \<and> consider_inserting_layer (\<lambda>s (f::unit) i. Inr (s::unit))
       \<lparr>capacities = [4, 2], contents = [None, Some 2], rational = False\<rparr>
       \<lparr>thresh = 0.1, abs_thresh = 0.1, layer_abs_thresh = 2, layer_cost_mul = 1,
        size_costing = False\<rparr>
       \<lparr>best_raw = 1, layer_score = 1, vlayer_score = 1, loss_sqnorm = 1, baseline = 1\<rparr>
       2 () () 0
     = Inr None"
proof -
  let ?emb = "\<lambda>(s::unit) (f::unit) (i::nat). (Inr s :: error + unit)"
  let ?sc = "\<lparr>best_raw = 1, layer_score = 1, vlayer_score = 1, loss_sqnorm = 1,
              baseline = 1\<rparr>"
  let ?c1 = "\<lparr>thresh = 0.1, abs_thresh = 0.1, layer_abs_thresh = 0.1, layer_cost_mul = 1,
        size_costing = False\<rparr>"
  let ?c2 = "\<lparr>thresh = 0.1, abs_thresh = 0.1, layer_abs_thresh = 2, layer_cost_mul = 1,
        size_costing = False\<rparr>"
  let ?t = "\<lparr>capacities = [4, 2], contents = [None, Some 2], rational = False\<rparr>"
  let ?ls = "\<lparr>save_index = 24, just_added = False\<rparr>"
  have g1: "going_to_add ?c1 ?sc" by (simp add: going_to_add_def)
  have g2: "\<not> going_to_insert ?c2 ?sc 2"
    by (simp add: going_to_insert_def adjusted_metric_def)
  have a: "fst (consider_adding_width ?emb ?c1 ?sc () () 1 False ?ls)
      = Inr (Some (WidthModification (Finite 2) 1 ()))"
    using growth_gate_spec [where emb = ?emb and cfg = ?c1 and sc = ?sc and bf = "()"
        and st = "()" and li = 1 and fin = False and ls = ?ls and t = ?t and n = 2] g1
    by (simp add: Let_def)
  have b: "consider_inserting_layer ?emb ?t ?c2 ?sc 2 () () 0 = Inr None"
    using growth_gate_spec [where emb = ?emb and cfg = ?c2 and sc = ?sc and bf = "()"
        and st = "()" and li = 0 and fin = False and ls = ?ls and t = ?t and n = 2] g2
    by (simp add: Let_def)
  from a b show ?thesis by (intro conjI)
qed

section \<open>Properties of locating features\<close>

lemma locate_make_feature:
  "locate_feature (make_feature p s c l v) =
     (- (- p * (1 / (0.000001 + s))) / (1 / (0.000001 + s)),
      1 / (0.000001 + 1 / (0.000001 + s)))"
  by (simp add: locate_feature_def locate_linear_def make_feature_def Let_def)

lemma recovered_position:
  assumes "0 < (s::real)"
  shows "- (- p * (1 / (0.000001 + s))) / (1 / (0.000001 + s)) = p"
proof -
  have "0.000001 + s \<noteq> 0" using assms by simp
  then show ?thesis by simp
qed

lemma recovered_scale:
  assumes "0 < (s::real)"
  shows "1 / (0.000001 + 1 / (0.000001 + s)) - s
           = 0.000001 * (1 - s * (0.000001 + s)) / (1 + 0.000001 * (0.000001 + s))"
proof -
  define e :: real where "e = 0.000001"
  have e: "0 < e" by (simp add: e_def)
  have es: "0 < e + s" using assms e by simp
  have d: "0 < 1 + e * (e + s)" using e es by (simp add: add_pos_pos)
  have "e + 1 / (e + s) = (1 + e * (e + s)) / (e + s)"
    using es by (simp add: field_simps)
  then have "1 / (e + 1 / (e + s)) = (e + s) / (1 + e * (e + s))"
    by simp
  also have "\<dots> - s = e * (1 - s * (e + s)) / (1 + e * (e + s))"
    using d by (simp add: field_simps)
  finally show ?thesis unfolding e_def by simp
qed

lemma recovered_scale_bound:
  assumes "0 < (s::real)" and "s \<le> 10"
  shows "\<bar>0.000001 * (1 - s * (0.000001 + s)) / (1 + 0.000001 * (0.000001 + s))\<bar> < 0.0001"
proof -
  define e :: real where "e = 0.000001"
  have e: "0 < e" by (simp add: e_def)
  have es: "0 < e + s" using assms e by simp
  have d: "1 < 1 + e * (e + s)" using e es by simp
  have g: "\<bar>1 - x\<bar> \<le> b - 1" if "0 < x" "x \<le> b" "2 \<le> b" for x b :: real
    using that by linarith
  have "s * (e + s) \<le> 10 * (e + 10)"
    using assms e by (intro mult_mono) simp_all
  moreover have "0 < s * (e + s)" using assms es by simp
  moreover have "2 \<le> 10 * (e + 10)" by (simp add: e_def)
  ultimately have "\<bar>1 - s * (e + s)\<bar> \<le> 10 * (e + 10) - 1"
    by (intro g)
  then have "e * \<bar>1 - s * (e + s)\<bar> \<le> e * (10 * (e + 10) - 1)"
    using e by (intro mult_left_mono) simp_all
  also have "\<dots> < 0.0001" by (simp add: e_def)
  finally have n: "\<bar>e * (1 - s * (e + s))\<bar> < 0.0001"
    using e by (simp add: abs_mult)
  have h: "a / b \<le> a" if "0 \<le> a" "1 \<le> b" for a b :: real
  proof -
    have "a * 1 \<le> a * b" using that by (intro mult_left_mono)
    moreover have "0 < b" using that by simp
    ultimately show ?thesis by (simp add: pos_divide_le_eq)
  qed
  have ad: "\<bar>1 + e * (e + s)\<bar> = 1 + e * (e + s)" using d by simp
  have "\<bar>e * (1 - s * (e + s)) / (1 + e * (e + s))\<bar>
          = \<bar>e * (1 - s * (e + s))\<bar> / (1 + e * (e + s))"
    unfolding abs_divide ad ..
  also have "\<dots> \<le> \<bar>e * (1 - s * (e + s))\<bar>"
    using d by (intro h) simp_all
  also note n
  finally have "\<bar>e * (1 - s * (e + s)) / (1 + e * (e + s))\<bar> < 0.0001" .
  then show ?thesis unfolding e_def .
qed

text \<open>
  Claim C9 as stated fails for a large scale: what \<open>locate_feature\<close> recovers is not
  \<open>s\<close> but \<open>1 / (1e-6 + 1 / (1e-6 + s))\<close>, which at \<open>s = 100\<close> is off by almost
  0.01.
\<close>

theorem locate_feature_counterexample:
  "(100::real) > 0.001
   \<and> \<bar>snd (locate_feature (make_feature 0 100 0 0 0)) - 100\<bar> > 0.0001"
  by (simp add: locate_make_feature)

text \<open>
  Claim C9, amended. On the feature built by \<open>make_feature p s c l v\<close>,
  \<open>locate_feature\<close> returns the position \<open>-bias / kernel\<close> and the scale
  \<open>1 / (1e-6 + kernel)\<close> with \<open>kernel = 1 / (1e-6 + s)\<close> and \<open>bias = -p * kernel\<close>. In
  exact arithmetic, for a scale above 0.001 the position is \<open>p\<close> and the scale differs
  from \<open>s\<close> by \<open>1e-6 * (1 - s * (1e-6 + s)) / (1 + 1e-6 * (1e-6 + s))\<close>, which is
  below 0.0001 as long as \<open>s\<close> is at most 10.
\<close>

theorem locate_make_feature_spec:
  assumes "0.001 < s"
  shows "locate_feature (make_feature p s c l v) =
           (- (- p * (1 / (0.000001 + s))) / (1 / (0.000001 + s)),
            1 / (0.000001 + 1 / (0.000001 + s)))
       \<and> fst (locate_feature (make_feature p s c l v)) = p
       \<and> snd (locate_feature (make_feature p s c l v)) - s
           = 0.000001 * (1 - s * (0.000001 + s)) / (1 + 0.000001 * (0.000001 + s))
       \<and> (s \<le> 10 \<longrightarrow> \<bar>snd (locate_feature (make_feature p s c l v)) - s\<bar> < 0.0001)"
proof -
  have s: "0 < s" using assms by simp
  have a: "locate_feature (make_feature p s c l v) =
           (- (- p * (1 / (0.000001 + s))) / (1 / (0.000001 + s)),
            1 / (0.000001 + 1 / (0.000001 + s)))"
    by (rule locate_make_feature)
  have b: "fst (locate_feature (make_feature p s c l v)) = p"
    unfolding locate_make_feature fst_conv by (rule recovered_position [OF s])
  have d: "snd (locate_feature (make_feature p s c l v)) - s
           = 0.000001 * (1 - s * (0.000001 + s)) / (1 + 0.000001 * (0.000001 + s))"
    unfolding locate_make_feature snd_conv by (rule recovered_scale [OF s])
  have e: "\<bar>snd (locate_feature (make_feature p s c l v)) - s\<bar> < 0.0001" if "s \<le> 10"
    unfolding d by (rule recovered_scale_bound [OF s that])
  from a b d e show ?thesis by blast
qed

theorem locate_make_feature_spec_witness:
  "(0.001::real) < 2 \<and> (2::real) \<le> 10
   \<and> fst (locate_feature (make_feature 3 2 0 0 0)) = 3
   \<and> \<bar>snd (locate_feature (make_feature 3 2 0 0 0)) - 2\<bar> < 0.0001"
proof -
  have h: "(0.001::real) < 2" by simp
  have t: "(2::real) \<le> 10" by simp
  from locate_make_feature_spec [OF h, of 3 0 0 0] t
  have "fst (locate_feature (make_feature 3 2 0 0 0)) = 3"
    and "\<bar>snd (locate_feature (make_feature 3 2 0 0 0)) - 2\<bar> < 0.0001"
    by blast+
  with h t show ?thesis by (intro conjI)
qed

end
